theory Spec2Isabelle
  imports Main
begin

section \<open>Game of Life on a torus: the field reducer of app.component.ts\<close>

text \<open>
  The simulation engine of the component: the toroidal neighbour function
  \<open>getNeighbours\<close>, the three reducer actions \<open>initAction\<close>, \<open>setStatusAction\<close> and
  \<open>tickAction\<close>, and the fold (\<open>scan\<close>) that threads a \<open>Field\<close> through the merged
  event stream.

  Cell indices and grid dimensions are integers. JavaScript computes with them as
  doubles: sums, differences and products are rounded to 53 significant bits
  (\<open>round_double\<close>), which changes nothing up to \<open>2 ^ 53\<close> and therefore nothing for any
  grid that \<open>Array(n)\<close> accepts.
\<close>

subsection \<open>Data model\<close>

text \<open>
  \<open>Set<number>\<close> keeps its elements in insertion order without duplicates, so a set is a
  list here; \<open>Map<number, Array<number>>\<close> is only ever built once and read with \<open>get\<close>,
  so it is an association list read with \<open>map_of\<close>.
\<close>

record Field =
  status :: "bool list"
  aliveCells :: "int list"
  deadCellsWithAliveNeighbours :: "int list"
  neighbours :: "(int \<times> int list) list"

text \<open>
  The two ways the code can throw: calling a method on \<open>undefined\<close> (the result of
  \<open>Map.get\<close> on a missing key, asserted non-null with \<open>!\<close>), and \<open>Array(n)\<close> with an
  invalid length.
\<close>

datatype error = TypeError | RangeError

datatype event = Initialize int int | SetCell int bool | Tick

definition emptyField :: Field where
  "emptyField = \<lparr>status = [], aliveCells = [], deadCellsWithAliveNeighbours = [], neighbours = []\<rparr>"

subsection \<open>JavaScript sets, arrays and the remainder operator\<close>

definition set_has :: "int list \<Rightarrow> int \<Rightarrow> bool" where
  "set_has s x = (x \<in> set s)"

definition set_add :: "int \<Rightarrow> int list \<Rightarrow> int list" where
  "set_add x s = (if x \<in> set s then s else s @ [x])"

definition set_delete :: "int \<Rightarrow> int list \<Rightarrow> int list" where
  "set_delete x s = removeAll x s"

text \<open>\<open>new Set(array)\<close>: the elements are added one by one, the first occurrence stays.\<close>

definition new_Set :: "int list \<Rightarrow> int list" where
  "new_Set xs = foldl (\<lambda>s x. set_add x s) [] xs"

text \<open>
  Reading \<open>status[i]\<close> where a boolean is expected: outside the array the read gives
  \<open>undefined\<close>, which every use in the code treats as \<open>false\<close> (\<open>!status\<close>, the predicate
  of \<open>filter\<close>).
\<close>

definition status_at :: "bool list \<Rightarrow> int \<Rightarrow> bool" where
  "status_at xs i = (0 \<le> i \<and> i < int (length xs) \<and> xs ! nat i)"

text \<open>
  The assignment \<open>status[index] = v\<close>. Inside the array it replaces the element. Beyond
  the end JavaScript lengthens the array to \<open>index + 1\<close>, leaving holes that read as
  \<open>undefined\<close>; the fill is written \<open>False\<close> here, the value all reads of the code take
  a hole for. A negative index sets a property and leaves the elements alone. The last two
  cases need a key of the neighbour map that is no index of the array, which no event
  sequence produces (\<open>scan_keys\<close> below); everywhere else the assignment is followed by
  the TypeError of the failed lookup.
\<close>

definition array_write :: "bool list \<Rightarrow> int \<Rightarrow> bool \<Rightarrow> bool list" where
  "array_write xs i v =
     (if 0 \<le> i \<and> i < int (length xs) then xs[nat i := v]
      else if int (length xs) \<le> i then xs @ replicate (nat i - length xs) False @ [v]
      else xs)"

text \<open>
  A JavaScript number is an IEEE 754 double. Every integer of magnitude up to \<open>2 ^ 53\<close> is
  a double; above, the doubles are the multiples of \<open>ulp\<close>, the power of two that leaves
  53 significant bits, and the result of an operation is the nearest of them, the one with
  the even multiplier when two are equally near. Magnitudes from \<open>2 ^ 1024\<close> on, which
  are \<open>Infinity\<close> in JavaScript, are outside of this model.
\<close>

function ulp :: "int \<Rightarrow> int" where
  "ulp a = (if a < 2 ^ 53 then 1 else 2 * ulp (a div 2))"
  by pat_completeness auto
termination
  by (relation "measure nat") auto

declare ulp.simps [simp del]

definition round_double :: "int \<Rightarrow> int" where
  "round_double x =
     (if \<bar>x\<bar> \<le> 2 ^ 53 then x
      else let a = \<bar>x\<bar>; u = ulp a; q = a div u; r = a mod u;
               q' = (if 2 * r > u \<or> (2 * r = u \<and> odd q) then q + 1 else q)
           in sgn x * (q' * u))"

definition js_add :: "int \<Rightarrow> int \<Rightarrow> int" where
  "js_add a b = round_double (a + b)"

definition js_sub :: "int \<Rightarrow> int \<Rightarrow> int" where
  "js_sub a b = round_double (a - b)"

definition js_mul :: "int \<Rightarrow> int \<Rightarrow> int" where
  "js_mul a b = round_double (a * b)"

text \<open>
  The operator \<open>%\<close> on integers, which is exact: the result has the sign of the dividend, and a
  zero divisor gives \<open>NaN\<close> (here \<open>None\<close>), which is \<open>===\<close> to nothing.
\<close>

definition js_rem :: "int \<Rightarrow> int \<Rightarrow> int option" where
  "js_rem a b = (if b = 0 then None else Some (sgn a * (\<bar>a\<bar> mod \<bar>b\<bar>)))"

definition nbrs_of :: "(int \<times> int list) list \<Rightarrow> int \<Rightarrow> int list" where
  "nbrs_of m i = (case map_of m i of None \<Rightarrow> [] | Some ns \<Rightarrow> ns)"

subsection \<open>Topology\<close>

definition getNeighbours :: "int \<Rightarrow> int \<Rightarrow> int \<Rightarrow> int list" where
  "getNeighbours index height width =
     (let dimension = js_mul height width;
          topNeighbourOffset = (if index < width then js_sub dimension width else - width);
          bottomNeighbourOffset =
            (if index \<ge> js_mul (js_sub height 1) width then js_add (- dimension) width
             else width);
          leftNeighbourOffset = (if js_rem index width = Some 0 then js_sub width 1 else - 1);
          rightNeighbourOffset =
            (if js_rem index width = Some (js_sub width 1) then js_add (- width) 1 else 1)
      in [js_add (js_add index topNeighbourOffset) leftNeighbourOffset,
          js_add index topNeighbourOffset,
          js_add (js_add index topNeighbourOffset) rightNeighbourOffset,
          js_add index leftNeighbourOffset, js_add index rightNeighbourOffset,
          js_add (js_add index bottomNeighbourOffset) leftNeighbourOffset,
          js_add index bottomNeighbourOffset,
          js_add (js_add index bottomNeighbourOffset) rightNeighbourOffset])"

subsection \<open>The reducer actions\<close>

text \<open>
  The payload of an init event, computed from the settings: \<open>Array(height * width)\<close>
  throws a RangeError unless the length is an integer in \<open>[0, 2 ^ 32)\<close>. In that range
  the product is exact, and a product outside of it is not rounded into it
  (\<open>js_mul_array_length\<close> below), so the exact product stands for the rounded one.
\<close>

definition initField :: "int \<Rightarrow> int \<Rightarrow> error + (bool list \<times> (int \<times> int list) list)" where
  "initField height width =
     (if height * width < 0 \<or> 2 ^ 32 \<le> height * width then Inl RangeError
      else let status = replicate (nat (height * width)) False
           in Inr (status,
                   map (\<lambda>index. (int index, getNeighbours (int index) height width))
                     [0..<length status]))"

text \<open>\<open>{ ...field, ...initField }\<close>: the payload has the keys \<open>status\<close> and \<open>neighbours\<close>.\<close>

definition initAction :: "bool list \<times> (int \<times> int list) list \<Rightarrow> Field \<Rightarrow> Field" where
  "initAction payload field = field\<lparr>status := fst payload, neighbours := snd payload\<rparr>"

text \<open>
  \<open>setStatusAction\<close> mutates the field and returns it. The lookups
  \<open>field.neighbours.get(...)!\<close> give \<open>undefined\<close> on a missing key, and the method call
  on it (\<open>filter\<close>, \<open>some\<close>) throws; the exception ends the stream, so no field is left to
  observe.
\<close>

definition setStatusAction :: "int \<times> bool \<Rightarrow> Field \<Rightarrow> error + Field" where
  "setStatusAction payload field =
     (let index = fst payload; st = snd payload;
          status' = array_write (status field) index st
      in case map_of (neighbours field) index of
           None \<Rightarrow> Inl TypeError
         | Some nbs \<Rightarrow>
             if st then
               let alive' = set_add index (aliveCells field);
                   dead1 = set_delete index (deadCellsWithAliveNeighbours field);
                   dead' = foldl (\<lambda>d n. set_add n d) dead1
                             (filter (\<lambda>neighbour. \<not> set_has alive' neighbour) nbs)
               in Inr (field\<lparr>status := status', aliveCells := alive',
                              deadCellsWithAliveNeighbours := dead'\<rparr>)
             else
               let alive' = set_delete index (aliveCells field);
                   dead1 = (if list_ex (\<lambda>neighbour. set_has alive' neighbour) nbs
                            then set_add index (deadCellsWithAliveNeighbours field)
                            else deadCellsWithAliveNeighbours field)
               in if list_ex (\<lambda>neighbour. map_of (neighbours field) neighbour = None) nbs
                  then Inl TypeError
                  else
                    let dead' = foldl (\<lambda>d n. set_delete n d) dead1
                                  (filter (\<lambda>neighbour.
                                      \<not> list_ex (\<lambda>n. set_has alive' n)
                                          (nbrs_of (neighbours field) neighbour)) nbs)
                    in Inr (field\<lparr>status := status', aliveCells := alive',
                                   deadCellsWithAliveNeighbours := dead'\<rparr>))"

definition decideStatus :: "Field \<Rightarrow> bool \<Rightarrow> int \<Rightarrow> bool" where
  "decideStatus field st index =
     (let aliveNeighbours =
            length (filter (\<lambda>neighbour. status_at (status field) neighbour)
                      (nbrs_of (neighbours field) index))
      in if \<not> st then aliveNeighbours = 3
         else aliveNeighbours \<ge> 2 \<and> aliveNeighbours \<le> 3)"

text \<open>
  The candidates are mapped to \<open>index\<close> or \<open>null\<close> and then filtered with \<open>!!index\<close>:
  \<open>null\<close> is falsy, and so is the number \<open>0\<close>.
\<close>

definition truthy :: "int option \<Rightarrow> bool" where
  "truthy x = (case x of None \<Rightarrow> False | Some i \<Rightarrow> i \<noteq> 0)"

text \<open>
  \<open>tick\<close> calls \<open>decideStatus\<close> on every candidate; the lookup of a candidate that is no
  key of the neighbour map throws. The cells of the new \<open>aliveCells\<close> are candidates, so
  their lookups in the second pass succeed.
\<close>

definition tick :: "Field \<Rightarrow> error + (bool list \<times> int list \<times> int list)" where
  "tick field =
     (let candidates = aliveCells field @ deadCellsWithAliveNeighbours field
      in if list_ex (\<lambda>index. map_of (neighbours field) index = None) candidates
         then Inl TypeError
         else
           let aliveCells' = new_Set (map the (filter truthy
                  (map (\<lambda>index. if decideStatus field (status_at (status field) index) index
                                 then Some index else None) candidates)));
               dead' = new_Set (filter (\<lambda>neighbour. \<not> set_has aliveCells' neighbour)
                         (concat (map (\<lambda>index. nbrs_of (neighbours field) index) aliveCells')))
           in Inr (map (\<lambda>index. set_has aliveCells' (int index)) [0..<length (status field)],
                   aliveCells', dead'))"

definition tickAction :: "Field \<Rightarrow> error + Field" where
  "tickAction field =
     (case tick field of
        Inl e \<Rightarrow> Inl e
      | Inr (st, alive, dead) \<Rightarrow>
          Inr (field\<lparr>status := st, aliveCells := alive,
                     deadCellsWithAliveNeighbours := dead\<rparr>))"

subsection \<open>The event pipeline\<close>

fun reducer :: "Field \<Rightarrow> event \<Rightarrow> error + Field" where
  "reducer field (Initialize height width) =
     (case initField height width of
        Inl e \<Rightarrow> Inl e
      | Inr payload \<Rightarrow> Inr (initAction payload field))"
| "reducer field (SetCell index st) = setStatusAction (index, st) field"
| "reducer field Tick = tickAction field"

fun scan_events :: "Field \<Rightarrow> event list \<Rightarrow> error + Field" where
  "scan_events field [] = Inr field"
| "scan_events field (e # es) =
     (case reducer field e of Inl err \<Rightarrow> Inl err | Inr field' \<Rightarrow> scan_events field' es)"

fun is_Initialize :: "event \<Rightarrow> bool" where
  "is_Initialize (Initialize height width) = True"
| "is_Initialize (SetCell index st) = False"
| "is_Initialize Tick = False"

subsection \<open>Specification-side definitions\<close>

text \<open>
  The neighbourhood as the specification words it: a cell at \<open>(row, col)\<close> with
  \<open>row = index div width\<close> and \<open>col = index mod width\<close>; "up" of row \<open>0\<close> wraps to
  \<open>height - 1\<close> and "down" of row \<open>height - 1\<close> wraps to \<open>0\<close>, likewise for columns;
  the eight combinations are listed top-left, top, top-right, left, right, bottom-left,
  bottom, bottom-right.
\<close>

definition up :: "int \<Rightarrow> int \<Rightarrow> int" where
  "up n k = (if k = 0 then n - 1 else k - 1)"

definition down :: "int \<Rightarrow> int \<Rightarrow> int" where
  "down n k = (if k = n - 1 then 0 else k + 1)"

definition cell :: "int \<Rightarrow> int \<Rightarrow> int \<Rightarrow> int" where
  "cell width row col = row * width + col"

definition toroidal_neighbours :: "int \<Rightarrow> int \<Rightarrow> int \<Rightarrow> int list" where
  "toroidal_neighbours index height width =
     (let row = index div width; col = index mod width
      in [cell width (up height row) (up width col), cell width (up height row) col,
          cell width (up height row) (down width col),
          cell width row (up width col), cell width row (down width col),
          cell width (down height row) (up width col), cell width (down height row) col,
          cell width (down height row) (down width col)])"

text \<open>
  The invariants of the two derived sets, for every cell index of the field: a cell is in
  \<open>aliveCells\<close> exactly when its status is true, and in \<open>deadCellsWithAliveNeighbours\<close>
  exactly when its status is false and one of its neighbours has status true.
\<close>

definition cell_indices :: "Field \<Rightarrow> int list" where
  "cell_indices field = map int [0..<length (status field)]"

definition has_alive_neighbour :: "Field \<Rightarrow> int \<Rightarrow> bool" where
  "has_alive_neighbour field i =
     list_ex (\<lambda>n. status_at (status field) n) (nbrs_of (neighbours field) i)"

definition alive_inv :: "Field \<Rightarrow> bool" where
  "alive_inv field =
     (\<forall>i \<in> set (cell_indices field).
        set_has (aliveCells field) i \<longleftrightarrow> status_at (status field) i)"

definition frontier_inv :: "Field \<Rightarrow> bool" where
  "frontier_inv field =
     (\<forall>i \<in> set (cell_indices field).
        set_has (deadCellsWithAliveNeighbours field) i \<longleftrightarrow>
          (\<not> status_at (status field) i \<and> has_alive_neighbour field i))"

text \<open>
  A field of a \<open>height\<close> by \<open>width\<close> torus: its status array has one entry per cell and
  its neighbour map is the one an init event for these dimensions carries. It is valid
  when both invariants hold as well.
\<close>

definition toroidal_field :: "int \<Rightarrow> int \<Rightarrow> Field \<Rightarrow> bool" where
  "toroidal_field height width field =
     (1 \<le> height \<and> 1 \<le> width \<and>
      initField height width = Inr (replicate (length (status field)) False, neighbours field))"

definition valid_field :: "int \<Rightarrow> int \<Rightarrow> Field \<Rightarrow> bool" where
  "valid_field height width field =
     (toroidal_field height width field \<and> alive_inv field \<and> frontier_inv field)"

text \<open>
  The rule B3/S23 evaluated naively over every cell of the grid: a dead cell with exactly
  three alive neighbours is born, an alive cell with two or three survives.
\<close>

definition b3s23 :: "bool \<Rightarrow> nat \<Rightarrow> bool" where
  "b3s23 alive count = (if alive then count = 2 \<or> count = 3 else count = 3)"

definition naive_step :: "Field \<Rightarrow> bool list" where
  "naive_step field =
     map (\<lambda>k. b3s23 (status field ! k)
                (length (filter (\<lambda>n. status_at (status field) n)
                           (nbrs_of (neighbours field) (int k)))))
       [0..<length (status field)]"

subsection \<open>Two concrete fields\<close>

text \<open>
  The field after \<open>Initialize 3 3\<close> and \<open>SetCell 4 True\<close>: a 3 by 3 torus whose centre
  cell is alive.
\<close>

definition centre_field :: Field where
  "centre_field =
     \<lparr>status = [False, False, False, False, True, False, False, False, False],
      aliveCells = [4],
      deadCellsWithAliveNeighbours = [0, 1, 2, 3, 5, 6, 7, 8],
      neighbours =
        [(0, [8, 6, 7, 2, 1, 5, 3, 4]), (1, [6, 7, 8, 0, 2, 3, 4, 5]),
         (2, [7, 8, 6, 1, 0, 4, 5, 3]), (3, [2, 0, 1, 5, 4, 8, 6, 7]),
         (4, [0, 1, 2, 3, 5, 6, 7, 8]), (5, [1, 2, 0, 4, 3, 7, 8, 6]),
         (6, [5, 3, 4, 8, 7, 2, 0, 1]), (7, [3, 4, 5, 6, 8, 0, 1, 2]),
         (8, [4, 5, 3, 7, 6, 1, 2, 0])]\<rparr>"

text \<open>
  The field after \<open>Initialize 4 4\<close> and \<open>SetCell\<close> of the cells 1, 4 and 5 to alive: a
  4 by 4 torus on which three cells of the 2 by 2 block in the top-left corner are alive
  and the fourth one, cell 0, is dead with three alive neighbours.
\<close>

definition corner_field :: Field where
  "corner_field =
     \<lparr>status = [False, True, False, False, True, True, False, False,
                False, False, False, False, False, False, False, False],
      aliveCells = [1, 4, 5],
      deadCellsWithAliveNeighbours = [12, 13, 14, 0, 2, 6, 3, 7, 11, 8, 9, 10],
      neighbours =
        [(0, [15, 12, 13, 3, 1, 7, 4, 5]), (1, [12, 13, 14, 0, 2, 4, 5, 6]),
         (2, [13, 14, 15, 1, 3, 5, 6, 7]), (3, [14, 15, 12, 2, 0, 6, 7, 4]),
         (4, [3, 0, 1, 7, 5, 11, 8, 9]), (5, [0, 1, 2, 4, 6, 8, 9, 10]),
         (6, [1, 2, 3, 5, 7, 9, 10, 11]), (7, [2, 3, 0, 6, 4, 10, 11, 8]),
         (8, [7, 4, 5, 11, 9, 15, 12, 13]), (9, [4, 5, 6, 8, 10, 12, 13, 14]),
         (10, [5, 6, 7, 9, 11, 13, 14, 15]), (11, [6, 7, 4, 10, 8, 14, 15, 12]),
         (12, [11, 8, 9, 15, 13, 3, 0, 1]), (13, [8, 9, 10, 12, 14, 0, 1, 2]),
         (14, [9, 10, 11, 13, 15, 1, 2, 3]), (15, [10, 11, 8, 14, 12, 2, 3, 0])]\<rparr>"

text \<open>The glider of the specification on a 5 by 5 torus, set cell by cell.\<close>

definition glider_events :: "event list" where
  "glider_events =
     [Initialize 5 5, SetCell (cell 5 1 2) True, SetCell (cell 5 2 3) True,
      SetCell (cell 5 3 1) True, SetCell (cell 5 3 2) True, SetCell (cell 5 3 3) True]"

section \<open>Topology: the neighbours of a cell\<close>

lemma js_rem_nonneg: "0 \<le> a \<Longrightarrow> 0 < b \<Longrightarrow> js_rem a b = Some (a mod b)"
  by (simp add: js_rem_def sgn_if)

lemma top_row_iff:
  fixes r c w :: int
  assumes "0 \<le> r" "0 \<le> c" "c < w"
  shows "r * w + c < w \<longleftrightarrow> r = 0"
proof (cases "r = 0")
  case True
  then show ?thesis using assms by simp
next
  case False
  then have "1 \<le> r" using assms by simp
  then have "w \<le> r * w" using assms mult_right_mono [of 1 r w] by simp
  then have "\<not> r * w + c < w" using assms by linarith
  then show ?thesis using False by simp
qed

lemma bottom_row_iff:
  fixes r c w h :: int
  assumes "r < h" "0 \<le> c" "c < w"
  shows "(h - 1) * w \<le> r * w + c \<longleftrightarrow> r = h - 1"
proof (cases "r = h - 1")
  case True
  then show ?thesis using assms by simp
next
  case False
  then have "r + 1 \<le> h - 1" using assms by simp
  then have "(r + 1) * w \<le> (h - 1) * w" using assms mult_right_mono [of "r + 1" "h - 1" w] by simp
  then have "r * w + w \<le> (h - 1) * w" by (simp only: distrib_right mult_1)
  then have "\<not> (h - 1) * w \<le> r * w + c" using assms by linarith
  then show ?thesis using False by simp
qed

lemma row_bounds:
  fixes i h w :: int
  assumes "0 \<le> i" "i < h * w" "1 \<le> w"
  shows "0 \<le> i div w \<and> i div w < h"
proof
  show "0 \<le> i div w" using assms by (simp add: pos_imp_zdiv_nonneg_iff)
  have c: "0 \<le> i mod w" using assms by simp
  have eq: "i = i div w * w + i mod w" by simp
  show "i div w < h"
  proof (rule ccontr)
    assume "\<not> i div w < h"
    then have "h * w \<le> i div w * w" using assms mult_right_mono [of h "i div w" w] by simp
    then show False using c eq assms by linarith
  qed
qed

lemma up_bounds: "0 \<le> k \<Longrightarrow> k < n \<Longrightarrow> 0 \<le> up n k \<and> up n k < n"
  by (simp add: up_def)

lemma down_bounds: "0 \<le> k \<Longrightarrow> k < n \<Longrightarrow> 0 \<le> down n k \<and> down n k < n"
  by (simp add: down_def)

lemma down_up: "0 \<le> k \<Longrightarrow> k < n \<Longrightarrow> down n (up n k) = k"
  by (simp add: up_def down_def)

lemma up_down: "0 \<le> k \<Longrightarrow> k < n \<Longrightarrow> up n (down n k) = k"
  by (simp add: up_def down_def)

lemma cell_nonneg: "0 \<le> r \<Longrightarrow> 0 \<le> c \<Longrightarrow> 0 \<le> w \<Longrightarrow> 0 \<le> cell w r c"
  by (simp add: cell_def)

lemma cell_bounds:
  assumes "0 \<le> r" "r < h" "0 \<le> c" "c < w"
  shows "cell w r c < h * w"
proof -
  have "(r + 1) * w \<le> h * w" using assms mult_right_mono [of "r + 1" h w] by simp
  then have "r * w + w \<le> h * w" by (simp only: distrib_right mult_1)
  then show "cell w r c < h * w" using assms unfolding cell_def by linarith
qed

lemma cell_inj:
  assumes "0 \<le> c" "c < w" "0 \<le> c'" "c' < w" "cell w r c = cell w r' c'"
  shows "r = r' \<and> c = c'"
proof -
  have "(r * w + c) div w = (r' * w + c') div w" "(r * w + c) mod w = (r' * w + c') mod w"
    using assms(5) by (simp_all add: cell_def)
  then show ?thesis using assms(1-4) by simp
qed

lemma cell_row_col: "1 \<le> w \<Longrightarrow> cell w (i div w) (i mod w) = i"
  by (simp add: cell_def)

text \<open>
  Up to \<open>2 ^ 53\<close> the arithmetic is exact, and on a grid of at most \<open>2 ^ 53\<close> cells no
  intermediate result of \<open>getNeighbours\<close> is larger.
\<close>

lemma round_double_exact: "\<bar>x\<bar> \<le> 2 ^ 53 \<Longrightarrow> round_double x = x"
  by (simp add: round_double_def)

lemma js_add_exact: "\<bar>a + b\<bar> \<le> 2 ^ 53 \<Longrightarrow> js_add a b = a + b"
  by (simp add: js_add_def round_double_exact)

lemma js_sub_exact: "\<bar>a - b\<bar> \<le> 2 ^ 53 \<Longrightarrow> js_sub a b = a - b"
  by (simp add: js_sub_def round_double_exact)

lemma js_mul_exact: "\<bar>a * b\<bar> \<le> 2 ^ 53 \<Longrightarrow> js_mul a b = a * b"
  by (simp add: js_mul_def round_double_exact)

text \<open>
  Above \<open>2 ^ 53\<close> rounding keeps the sign and stays above \<open>2 ^ 53\<close>. So the rounded
  product \<open>height * width\<close> is a valid array length exactly when the exact product is,
  and then the two are equal: \<open>initField\<close> loses nothing by testing the exact product.
\<close>

lemma ulp_large:
  "2 ^ 53 \<le> a \<Longrightarrow> 2 \<le> ulp a \<and> 2 ^ 52 \<le> a div ulp a"
proof (induction a rule: ulp.induct)
  case (1 a)
  show ?case
  proof (cases "a div 2 < 2 ^ 53")
    case True
    then have "ulp (a div 2) = 1" by (simp add: ulp.simps)
    then have u: "ulp a = 2" using "1.prems" by (subst ulp.simps) simp
    have "2 ^ 52 \<le> a div 2" using "1.prems" by simp
    then show ?thesis using u by simp
  next
    case False
    then have ih: "2 \<le> ulp (a div 2)" "2 ^ 52 \<le> a div 2 div ulp (a div 2)"
      using "1.IH" "1.prems" by simp_all
    have u: "ulp a = 2 * ulp (a div 2)" using "1.prems" by (subst ulp.simps) simp
    have "a div ulp a = a div 2 div ulp (a div 2)"
      unfolding u using ih(1) zdiv_zmult2_eq [of "ulp (a div 2)" a 2] by simp
    then show ?thesis using ih u by simp
  qed
qed

lemma round_double_large:
  assumes "2 ^ 53 < \<bar>x\<bar>"
  shows "2 ^ 53 \<le> \<bar>round_double x\<bar> \<and> sgn (round_double x) = sgn x"
proof -
  define a where "a = \<bar>x\<bar>"
  define u where "u = ulp a"
  define q where "q = a div u"
  define q' where "q' = (if 2 * (a mod u) > u \<or> (2 * (a mod u) = u \<and> odd q) then q + 1 else q)"
  have l: "2 \<le> u" "2 ^ 52 \<le> q" using ulp_large [of a] assms by (simp_all add: a_def u_def q_def)
  have q': "2 ^ 52 \<le> q'" using l(2) by (simp add: q'_def)
  have "2 ^ 52 * 2 \<le> q' * u"
    by (rule mult_mono [OF q' l(1)]) (use q' in simp_all)
  define p where "p = q' * u"
  then have big: "2 ^ 53 \<le> p" using \<open>2 ^ 52 * 2 \<le> q' * u\<close> by simp
  have r: "round_double x = sgn x * p"
    using assms by (simp add: round_double_def Let_def a_def u_def q_def q'_def p_def)
  have x: "x \<noteq> 0" using assms by auto
  have "(0::int) < 2 ^ 53" by simp
  then have pos: "0 < p" using big by (rule less_le_trans)
  then have "\<bar>sgn x * p\<bar> = p" "sgn (sgn x * p) = sgn x"
    using x by (simp_all add: abs_mult sgn_mult)
  then show ?thesis using big unfolding r by simp
qed

lemma round_double_array_length:
  "(round_double x < 0 \<or> 2 ^ 32 \<le> round_double x) \<longleftrightarrow> (x < 0 \<or> 2 ^ 32 \<le> x)"
proof (cases "\<bar>x\<bar> \<le> 2 ^ 53")
  case True
  then show ?thesis by (simp add: round_double_def)
next
  case False
  then have "2 ^ 53 < \<bar>x\<bar>" by simp
  from round_double_large [OF this] False show ?thesis
    by (auto simp: sgn_if split: if_splits)
qed

lemma js_mul_array_length:
  "(js_mul h w < 0 \<or> 2 ^ 32 \<le> js_mul h w) \<longleftrightarrow> (h * w < 0 \<or> 2 ^ 32 \<le> h * w)"
  unfolding js_mul_def by (rule round_double_array_length)

lemma js_mul_valid_length:
  assumes "\<not> (h * w < 0 \<or> 2 ^ 32 \<le> h * w)"
  shows "js_mul h w = h * w"
proof (rule js_mul_exact)
  have "(2::int) ^ 32 \<le> 2 ^ 53" by simp
  then show "\<bar>h * w\<bar> \<le> 2 ^ 53" using assms by linarith
qed

lemma getNeighbours_cell:
  assumes "0 \<le> r" "r < h" "0 \<le> c" "c < w" and bound: "h * w \<le> 2 ^ 53"
  shows "getNeighbours (cell w r c) h w =
     [cell w (up h r) (up w c), cell w (up h r) c, cell w (up h r) (down w c),
      cell w r (up w c), cell w r (down w c),
      cell w (down h r) (up w c), cell w (down h r) c, cell w (down h r) (down w c)]"
proof -
  let ?i = "r * w + c"
  have idx: "0 \<le> ?i" using assms by simp
  have w: "0 < w" using assms by simp
  have h: "1 \<le> h" using assms by simp
  have wle: "w \<le> h * w" using mult_right_mono [of 1 h w] h w by simp
  have hle: "h \<le> h * w" using mult_left_mono [of 1 w h] h w by simp
  have wB: "w \<le> 2 ^ 53" using wle bound by linarith
  have hB: "h \<le> 2 ^ 53" using hle bound by linarith
  have rem: "js_rem ?i w = Some c"
    using js_rem_nonneg [OF idx w] assms by simp
  have dim: "js_mul h w = h * w"
  proof (rule js_mul_exact)
    have "0 \<le> h * w" using h w by simp
    then show "\<bar>h * w\<bar> \<le> 2 ^ 53" using bound by linarith
  qed
  have h1: "js_sub h 1 = h - 1"
    by (rule js_sub_exact) (use h hB in linarith)
  have w1: "js_sub w 1 = w - 1"
    by (rule js_sub_exact) (use w wB in linarith)
  have hw: "(h - 1) * w = h * w - w" by (simp add: algebra_simps)
  have h1w: "js_mul (h - 1) w = (h - 1) * w"
    unfolding hw by (rule js_mul_exact [of "h - 1" w, unfolded hw]) (use wle bound w in linarith)
  have dw: "js_sub (h * w) w = h * w - w"
    by (rule js_sub_exact) (use wle bound w in linarith)
  have mdw: "js_add (- (h * w)) w = - (h * w) + w"
    by (rule js_add_exact) (use wle bound w in linarith)
  have mw1: "js_add (- w) 1 = - w + 1"
    by (rule js_add_exact) (use w wB in linarith)
  have top: "(if ?i < w then h * w - w else - w) = (up h r - r) * w"
    using top_row_iff [of r c w] assms by (cases "r = 0") (simp_all add: up_def algebra_simps)
  have bottom: "(if ?i \<ge> (h - 1) * w then - (h * w) + w else w) = (down h r - r) * w"
  proof (cases "r = h - 1")
    case True
    then have "h = r + 1" by simp
    then show ?thesis using assms by (simp add: down_def algebra_simps)
  next
    case False
    then show ?thesis using bottom_row_iff [of r h c w] assms by (simp add: down_def)
  qed
  have left: "(if Some c = Some (0::int) then w - 1 else - 1) = up w c - c"
    by (simp add: up_def)
  have right: "(if Some c = Some (w - 1) then - w + 1 else 1) = down w c - c"
    by (simp add: down_def)
  have row: "js_add (r1 * w + c1) ((r2 - r1) * w) = r2 * w + c1"
    if "0 \<le> r2" "r2 < h" "0 \<le> c1" "c1 < w" for r1 r2 c1
  proof -
    have eq: "r1 * w + c1 + (r2 - r1) * w = cell w r2 c1"
      by (simp add: cell_def algebra_simps)
    have "0 \<le> cell w r2 c1" "cell w r2 c1 < h * w"
      using cell_nonneg [of r2 c1 w] cell_bounds [OF that] that w by simp_all
    then have "\<bar>r1 * w + c1 + (r2 - r1) * w\<bar> \<le> 2 ^ 53" using bound unfolding eq by linarith
    from js_add_exact [OF this] eq show ?thesis by (simp add: cell_def)
  qed
  have col: "js_add (r1 * w + c1) (c2 - c1) = r1 * w + c2"
    if "0 \<le> r1" "r1 < h" "0 \<le> c2" "c2 < w" for r1 c1 c2
  proof -
    have eq: "r1 * w + c1 + (c2 - c1) = cell w r1 c2"
      by (simp add: cell_def)
    have "0 \<le> cell w r1 c2" "cell w r1 c2 < h * w"
      using cell_nonneg [of r1 c2 w] cell_bounds [OF that] that w by simp_all
    then have "\<bar>r1 * w + c1 + (c2 - c1)\<bar> \<le> 2 ^ 53" using bound unfolding eq by linarith
    from js_add_exact [OF this] eq show ?thesis by (simp add: cell_def)
  qed
  note ub = up_bounds [OF assms(1,2)] up_bounds [OF assms(3,4)]
  note db = down_bounds [OF assms(1,2)] down_bounds [OF assms(3,4)]
  have rows: "js_add ?i ((up h r - r) * w) = up h r * w + c"
    "js_add ?i ((down h r - r) * w) = down h r * w + c"
    using ub db assms by (simp_all add: row)
  have cols: "js_add (r' * w + c) (up w c - c) = r' * w + up w c"
    "js_add (r' * w + c) (down w c - c) = r' * w + down w c"
    if "0 \<le> r'" "r' < h" for r'
    using ub db that by (simp_all add: col)
  show ?thesis
    unfolding getNeighbours_def Let_def cell_def dim h1 w1 h1w dw mdw mw1 rem
      top bottom left right rows
    using ub db assms by (simp add: cols)
qed

lemma getNeighbours_toroidal:
  assumes "1 \<le> w" "0 \<le> i" "i < h * w" "h * w \<le> 2 ^ 53"
  shows "getNeighbours i h w = toroidal_neighbours i h w"
proof -
  have r: "0 \<le> i div w" "i div w < h" using row_bounds [of i h w] assms by simp_all
  have c: "0 \<le> i mod w" "i mod w < w" using assms by simp_all
  show ?thesis
    using getNeighbours_cell [OF r c assms(4)] assms(1)
    by (simp add: toroidal_neighbours_def Let_def cell_row_col)
qed


lemma toroidal_neighbours_in_range:
  assumes "1 \<le> w" "0 \<le> i" "i < h * w" "n \<in> set (toroidal_neighbours i h w)"
  shows "0 \<le> n \<and> n < h * w"
proof -
  have r: "0 \<le> i div w" "i div w < h" using row_bounds [of i h w] assms by simp_all
  have c: "0 \<le> i mod w" "i mod w < w" using assms by simp_all
  note b = up_bounds [OF r] down_bounds [OF r] up_bounds [OF c] down_bounds [OF c]
  from assms(4) consider
      "n = cell w (up h (i div w)) (up w (i mod w))" | "n = cell w (up h (i div w)) (i mod w)"
    | "n = cell w (up h (i div w)) (down w (i mod w))" | "n = cell w (i div w) (up w (i mod w))"
    | "n = cell w (i div w) (down w (i mod w))" | "n = cell w (down h (i div w)) (up w (i mod w))"
    | "n = cell w (down h (i div w)) (i mod w)" | "n = cell w (down h (i div w)) (down w (i mod w))"
    by (auto simp: toroidal_neighbours_def Let_def)
  then show ?thesis
    using b r c assms(1) by cases (simp_all add: cell_bounds cell_nonneg)
qed

lemma toroidal_neighbours_symmetric:
  assumes "1 \<le> w" "0 \<le> i" "i < h * w" "n \<in> set (toroidal_neighbours i h w)"
  shows "i \<in> set (toroidal_neighbours n h w)"
proof -
  have r: "0 \<le> i div w" "i div w < h" using row_bounds [of i h w] assms by simp_all
  have c: "0 \<le> i mod w" "i mod w < w" using assms by simp_all
  note b = up_bounds [OF r] down_bounds [OF r] up_bounds [OF c] down_bounds [OF c]
  note inv = up_down [OF r] down_up [OF r] up_down [OF c] down_up [OF c]
  have i: "i = cell w (i div w) (i mod w)" using assms by (simp add: cell_row_col)
  have rc: "0 \<le> c' \<Longrightarrow> c' < w \<Longrightarrow> cell w r' c' div w = r' \<and> cell w r' c' mod w = c'" for r' c'
    by (simp add: cell_def)
  from assms(4) consider
      "n = cell w (up h (i div w)) (up w (i mod w))" | "n = cell w (up h (i div w)) (i mod w)"
    | "n = cell w (up h (i div w)) (down w (i mod w))" | "n = cell w (i div w) (up w (i mod w))"
    | "n = cell w (i div w) (down w (i mod w))" | "n = cell w (down h (i div w)) (up w (i mod w))"
    | "n = cell w (down h (i div w)) (i mod w)" | "n = cell w (down h (i div w)) (down w (i mod w))"
    by (auto simp: toroidal_neighbours_def Let_def)
  then show ?thesis
  proof cases
    case 1
    then have "n div w = up h (i div w)" "n mod w = up w (i mod w)" using rc b by simp_all
    then show ?thesis using inv i by (simp add: toroidal_neighbours_def Let_def)
  next
    case 2
    then have "n div w = up h (i div w)" "n mod w = i mod w" using rc c by simp_all
    then show ?thesis using inv i by (simp add: toroidal_neighbours_def Let_def)
  next
    case 3
    then have "n div w = up h (i div w)" "n mod w = down w (i mod w)" using rc b by simp_all
    then show ?thesis using inv i by (simp add: toroidal_neighbours_def Let_def)
  next
    case 4
    then have "n div w = i div w" "n mod w = up w (i mod w)" using rc b by simp_all
    then show ?thesis using inv i by (simp add: toroidal_neighbours_def Let_def)
  next
    case 5
    then have "n div w = i div w" "n mod w = down w (i mod w)" using rc b by simp_all
    then show ?thesis using inv i by (simp add: toroidal_neighbours_def Let_def)
  next
    case 6
    then have "n div w = down h (i div w)" "n mod w = up w (i mod w)" using rc b by simp_all
    then show ?thesis using inv i by (simp add: toroidal_neighbours_def Let_def)
  next
    case 7
    then have "n div w = down h (i div w)" "n mod w = i mod w" using rc c by simp_all
    then show ?thesis using inv i by (simp add: toroidal_neighbours_def Let_def)
  next
    case 8
    then have "n div w = down h (i div w)" "n mod w = down w (i mod w)" using rc b by simp_all
    then show ?thesis using inv i by (simp add: toroidal_neighbours_def Let_def)
  qed
qed

lemma up_neq: "3 \<le> n \<Longrightarrow> 0 \<le> k \<Longrightarrow> k < n \<Longrightarrow> up n k \<noteq> k \<and> down n k \<noteq> k \<and> up n k \<noteq> down n k"
  by (simp add: up_def down_def)

lemma toroidal_neighbours_distinct:
  assumes "3 \<le> h" "3 \<le> w" "0 \<le> i" "i < h * w"
  shows "distinct (toroidal_neighbours i h w)"
proof -
  have r: "0 \<le> i div w" "i div w < h" using row_bounds [of i h w] assms by simp_all
  have c: "0 \<le> i mod w" "i mod w < w" using assms by simp_all
  note b = up_bounds [OF c] down_bounds [OF c]
  have inj: "cell w r1 c1 = cell w r2 c2 \<longleftrightarrow> r1 = r2 \<and> c1 = c2"
    if "0 \<le> c1" "c1 < w" "0 \<le> c2" "c2 < w" for r1 c1 r2 c2
    using cell_inj [of c1 w c2 r1 r2] that by auto
  show ?thesis
    using up_neq [OF assms(1) r] up_neq [OF assms(2) c] b c
    by (simp add: toroidal_neighbours_def Let_def inj)
qed

text \<open>
  C7, as the code has it. The indices are computed in doubles, so the claim holds as far as
  doubles count exactly: for all height, width of at least 1 with
  \<open>height * width \<le> 2 ^ 53\<close> and every flat index in \<open>[0, height * width)\<close>,
  \<open>getNeighbours\<close> returns 8 indices, each of them in \<open>[0, height * width)\<close>.
\<close>

theorem getNeighbours_in_range:
  assumes "1 \<le> height" "1 \<le> width" "height * width \<le> 2 ^ 53"
    "0 \<le> index" "index < height * width"
  shows "length (getNeighbours index height width) = 8 \<and>
         (\<forall>n \<in> set (getNeighbours index height width). 0 \<le> n \<and> n < height * width)"
proof -
  have eq: "getNeighbours index height width = toroidal_neighbours index height width"
    by (rule getNeighbours_toroidal [OF assms(2,4,5,3)])
  have len: "length (toroidal_neighbours index height width) = 8"
    by (simp add: toroidal_neighbours_def Let_def)
  have "\<forall>n \<in> set (toroidal_neighbours index height width). 0 \<le> n \<and> n < height * width"
    using toroidal_neighbours_in_range [OF assms(2,4,5)] by blast
  with len show ?thesis by (simp only: eq simp_thms)
qed

theorem getNeighbours_in_range_witness:
  "length (getNeighbours 2 1 3) = 8 \<and>
   list_all (\<lambda>n. 0 \<le> n \<and> n < 1 * 3) (getNeighbours 2 1 3) \<and>
   getNeighbours 2 1 3 = [1, 2, 0, 1, 0, 1, 2, 0]"
proof -
  have v: "getNeighbours 2 1 3 = [1, 2, 0, 1, 0, 1, 2, 0]"
    by code_simp
  have "(1::int) \<le> 1" "(1::int) \<le> 3" "(1::int) * 3 \<le> 2 ^ 53" "(0::int) \<le> 2"
    "(2::int) < 1 * 3"
    by simp_all
  from getNeighbours_in_range [OF this] v show ?thesis by simp
qed

text \<open>
  C7, as the specification states it, fails on a grid of \<open>2 ^ 27\<close> by \<open>2 ^ 27\<close> cells: the
  top-left neighbour of cell 0 would be cell \<open>2 ^ 54 - 1\<close>, which is no double; the sum is
  rounded to \<open>2 ^ 54\<close>, the number of cells, and that is no index of the grid.
\<close>

theorem getNeighbours_rounds_out_of_range:
  "getNeighbours 0 (2 ^ 27) (2 ^ 27) ! 0 = 2 ^ 54 \<and>
   \<not> getNeighbours 0 (2 ^ 27) (2 ^ 27) ! 0 < 2 ^ 27 * 2 ^ 27"
  by code_simp

text \<open>
  C6, as the code has it. On a torus with only two rows the row above and the row below a
  cell are the same row (likewise with two columns), so the eight neighbours are pairwise
  distinct from height and width 3 on, not from 2 on; and they are computed in doubles,
  which count exactly up to \<open>2 ^ 53\<close>. For all height, width of at least 3 with
  \<open>height * width \<le> 2 ^ 53\<close> and every flat index in \<open>[0, height * width)\<close>,
  \<open>getNeighbours\<close> returns exactly 8 pairwise distinct indices, the 8 toroidal directions
  in the order of the specification. On grids of at most \<open>2 ^ 53\<close> cells duplicates are
  therefore possible only with a height or width of at most 2.
\<close>

theorem getNeighbours_distinct:
  assumes "3 \<le> height" "3 \<le> width" "height * width \<le> 2 ^ 53"
    "0 \<le> index" "index < height * width"
  shows "length (getNeighbours index height width) = 8 \<and>
         distinct (getNeighbours index height width) \<and>
         getNeighbours index height width = toroidal_neighbours index height width"
proof -
  have w: "1 \<le> width" using assms(2) by simp
  have eq: "getNeighbours index height width = toroidal_neighbours index height width"
    by (rule getNeighbours_toroidal [OF w assms(4,5,3)])
  have "length (toroidal_neighbours index height width) = 8"
    by (simp add: toroidal_neighbours_def Let_def)
  then show ?thesis
    using eq toroidal_neighbours_distinct [OF assms(1,2,4,5)] by simp
qed

theorem getNeighbours_distinct_witness:
  "length (getNeighbours 4 3 3) = 8 \<and> distinct (getNeighbours 4 3 3) \<and>
   getNeighbours 4 3 3 = toroidal_neighbours 4 3 3 \<and>
   getNeighbours 4 3 3 = [0, 1, 2, 3, 5, 6, 7, 8]"
proof -
  have v: "getNeighbours 4 3 3 = [0, 1, 2, 3, 5, 6, 7, 8]"
    by code_simp
  have t: "toroidal_neighbours 4 3 3 = [0, 1, 2, 3, 5, 6, 7, 8]"
    by (simp add: toroidal_neighbours_def cell_def up_def down_def)
  have "(3::int) \<le> 3" "(3::int) \<le> 3" "(3::int) * 3 \<le> 2 ^ 53" "(0::int) \<le> 4"
    "(4::int) < 3 * 3"
    by simp_all
  from getNeighbours_distinct [OF this] show ?thesis by (simp add: v t)
qed

text \<open>
  C6, as the specification states it, fails at height = width = 2: the neighbours above
  and below cell 0 are both cell 2, and those to its left and right are both cell 1. It
  also fails at height = width = \<open>2 ^ 27\<close>, where the top and the top-right neighbour of
  cell 0 are both rounded to \<open>2 ^ 54 - 2 ^ 27\<close>.
\<close>

theorem getNeighbours_two_by_two_duplicates:
  "\<not> distinct (getNeighbours 0 2 2) \<and> \<not> distinct (getNeighbours 0 (2 ^ 27) (2 ^ 27))"
  by code_simp

section \<open>Sets, lookups and valid fields\<close>

lemma set_foldl_set_add: "set (foldl (\<lambda>s x. set_add x s) s xs) = set s \<union> set xs"
  by (induction xs arbitrary: s) (auto simp: set_add_def)

lemma set_new_Set: "set (new_Set xs) = set xs"
  by (simp add: new_Set_def set_foldl_set_add)

lemma foldl_set_add_id:
  "set xs \<subseteq> set s \<Longrightarrow> foldl (\<lambda>d n. set_add n d) s xs = s"
  by (induction xs arbitrary: s) (auto simp: set_add_def)

lemma foldl_set_delete_id:
  "set xs \<inter> set s = {} \<Longrightarrow> foldl (\<lambda>d n. set_delete n d) s xs = s"
  by (induction xs arbitrary: s) (auto simp: set_delete_def)

lemma map_of_index_map:
  "map_of (map (\<lambda>k. (int k, g (int k))) [0..<n]) i =
     (if 0 \<le> i \<and> i < int n then Some (g i) else None)"
  by (induction n) (auto simp: map_add_def split: option.splits)

lemma initField_Inr:
  "initField h w = Inr (st, nb) \<Longrightarrow>
     st = replicate (nat (h * w)) False \<and>
     nb = map (\<lambda>k. (int k, getNeighbours (int k) h w)) [0..<nat (h * w)]"
  by (auto simp: initField_def Let_def split: if_splits)

lemma grid_length: "toroidal_field h w f \<Longrightarrow> int (length (status f)) = h * w"
  by (auto simp: toroidal_field_def initField_def Let_def split: if_splits dest!: arg_cong [where f = length])

lemma grid_bound: "toroidal_field h w f \<Longrightarrow> h * w \<le> 2 ^ 53"
proof -
  assume "toroidal_field h w f"
  then have "h * w < 2 ^ 32"
    by (auto simp: toroidal_field_def initField_def split: if_splits)
  then show ?thesis by simp
qed

lemma grid_lookup:
  assumes "toroidal_field h w f" "0 \<le> i" "i < int (length (status f))"
  shows "map_of (neighbours f) i = Some (getNeighbours i h w)"
proof -
  have "initField h w = Inr (replicate (length (status f)) False, neighbours f)"
    using assms(1) by (simp add: toroidal_field_def)
  from initField_Inr [OF this] grid_length [OF assms(1)] assms(2,3)
  show ?thesis by (simp add: map_of_index_map [where g = "\<lambda>i. getNeighbours i h w"])
qed

lemma grid_lookup_None:
  assumes "toroidal_field h w f" "\<not> (0 \<le> i \<and> i < int (length (status f)))"
  shows "map_of (neighbours f) i = None"
proof -
  have "initField h w = Inr (replicate (length (status f)) False, neighbours f)"
    using assms(1) by (simp add: toroidal_field_def)
  from initField_Inr [OF this] grid_length [OF assms(1)] assms(2)
  show ?thesis by (simp add: map_of_index_map [where g = "\<lambda>i. getNeighbours i h w"])
qed

lemma grid_nbr_range:
  assumes "toroidal_field h w f" "0 \<le> i" "i < int (length (status f))"
    "n \<in> set (getNeighbours i h w)"
  shows "0 \<le> n \<and> n < int (length (status f))"
proof -
  have w: "1 \<le> w" using assms(1) by (simp add: toroidal_field_def)
  have i: "i < h * w" using assms(3) grid_length [OF assms(1)] by simp
  show ?thesis
    using toroidal_neighbours_in_range [OF w assms(2) i] assms(4)
      getNeighbours_toroidal [OF w assms(2) i grid_bound [OF assms(1)]]
      grid_length [OF assms(1)]
    by simp
qed

lemma grid_nbr_sym:
  assumes "toroidal_field h w f" "0 \<le> i" "i < int (length (status f))"
    "n \<in> set (getNeighbours i h w)"
  shows "i \<in> set (getNeighbours n h w)"
proof -
  have w: "1 \<le> w" using assms(1) by (simp add: toroidal_field_def)
  have i: "i < h * w" using assms(3) grid_length [OF assms(1)] by simp
  have n: "0 \<le> n" "n < h * w"
    using grid_nbr_range [OF assms] grid_length [OF assms(1)] by simp_all
  have "n \<in> set (toroidal_neighbours i h w)"
    using assms(4) getNeighbours_toroidal [OF w assms(2) i grid_bound [OF assms(1)]] by simp
  from toroidal_neighbours_symmetric [OF w assms(2) i this]
  show ?thesis using getNeighbours_toroidal [OF w n grid_bound [OF assms(1)]] by simp
qed

lemma alive_invD:
  "alive_inv f \<Longrightarrow> 0 \<le> i \<Longrightarrow> i < int (length (status f)) \<Longrightarrow>
     i \<in> set (aliveCells f) \<longleftrightarrow> status_at (status f) i"
  unfolding alive_inv_def cell_indices_def set_has_def
  by (drule bspec [where x = i]) (auto simp: image_iff intro: bexI [where x = "nat i"])

lemma frontier_invD:
  "frontier_inv f \<Longrightarrow> 0 \<le> i \<Longrightarrow> i < int (length (status f)) \<Longrightarrow>
     i \<in> set (deadCellsWithAliveNeighbours f) \<longleftrightarrow>
       (\<not> status_at (status f) i \<and> has_alive_neighbour f i)"
  unfolding frontier_inv_def cell_indices_def set_has_def
  by (drule bspec [where x = i]) (auto simp: image_iff intro: bexI [where x = "nat i"])


lemma grid_nbrs_of:
  assumes "toroidal_field h w f" "0 \<le> i" "i < int (length (status f))"
  shows "nbrs_of (neighbours f) i = getNeighbours i h w"
  using grid_lookup [OF assms] by (simp add: nbrs_of_def)

lemma valid_alive_neighbour_iff:
  assumes "toroidal_field h w f" "alive_inv f" "0 \<le> i" "i < int (length (status f))"
  shows "has_alive_neighbour f i \<longleftrightarrow> (\<exists>n \<in> set (getNeighbours i h w). n \<in> set (aliveCells f))"
proof -
  have "status_at (status f) n \<longleftrightarrow> n \<in> set (aliveCells f)"
    if "n \<in> set (getNeighbours i h w)" for n
    using alive_invD [OF assms(2), of n] grid_nbr_range [OF assms(1,3,4) that] by simp
  then show ?thesis
    by (auto simp: has_alive_neighbour_def grid_nbrs_of [OF assms(1,3,4)] list_ex_iff)
qed

lemma set_foldl_set_delete: "set (foldl (\<lambda>d n. set_delete n d) s xs) = set s - set xs"
  by (induction xs arbitrary: s) (auto simp: set_delete_def)

lemma set_set_add: "set (set_add x s) = insert x (set s)"
  by (auto simp: set_add_def)

lemma set_set_delete: "set (set_delete x s) = set s - {x}"
  by (auto simp: set_delete_def)

lemma status_at_update:
  "0 \<le> i \<Longrightarrow> i < int (length xs) \<Longrightarrow>
     status_at (xs[nat i := v]) j = (if j = i then v else status_at xs j)"
  by (auto simp: status_at_def nth_list_update)

lemma toroidal_field_cong:
  "toroidal_field h w f \<Longrightarrow> length (status f') = length (status f) \<Longrightarrow>
     neighbours f' = neighbours f \<Longrightarrow> toroidal_field h w f'"
  by (simp add: toroidal_field_def)

lemma alive_invI:
  "(\<And>i. 0 \<le> i \<Longrightarrow> i < int (length (status f)) \<Longrightarrow>
      i \<in> set (aliveCells f) \<longleftrightarrow> status_at (status f) i) \<Longrightarrow> alive_inv f"
  by (auto simp: alive_inv_def cell_indices_def set_has_def)

lemma frontier_invI:
  "(\<And>i. 0 \<le> i \<Longrightarrow> i < int (length (status f)) \<Longrightarrow>
      i \<in> set (deadCellsWithAliveNeighbours f) \<longleftrightarrow>
        (\<not> status_at (status f) i \<and> has_alive_neighbour f i)) \<Longrightarrow> frontier_inv f"
  by (auto simp: frontier_inv_def cell_indices_def set_has_def)

lemma grid_nbr_sym_iff:
  assumes "toroidal_field h w f" "0 \<le> i" "i < int (length (status f))"
    "0 \<le> j" "j < int (length (status f))"
  shows "j \<in> set (getNeighbours i h w) \<longleftrightarrow> i \<in> set (getNeighbours j h w)"
  using grid_nbr_sym [OF assms(1,2,3)] grid_nbr_sym [OF assms(1,4,5)] by blast

section \<open>The edit handler\<close>

text \<open>
  C8. For every valid field and every in-range index, processing \<open>SetCell\<close> of the cell
  to the value it already has returns the field unchanged: the same status, the same sets
  in the same order, the same neighbour map.
\<close>

theorem setStatusAction_current_value:
  assumes v: "valid_field height width field"
    and i: "0 \<le> index" "index < int (length (status field))"
  shows "setStatusAction (index, status field ! nat index) field = Inr field"
proof -
  let ?ns = "getNeighbours index height width"
  have g: "toroidal_field height width field"
    and ainv: "alive_inv field" and finv: "frontier_inv field"
    using v by (simp_all add: valid_field_def)
  have lk: "map_of (neighbours field) index = Some ?ns"
    by (rule grid_lookup [OF g i])
  have wr: "array_write (status field) index (status field ! nat index) = status field"
    using i by (simp add: array_write_def)
  have st: "status_at (status field) index = status field ! nat index"
    using i by (simp add: status_at_def)
  show ?thesis
  proof (cases "status field ! nat index")
    case True
    have ia: "index \<in> set (aliveCells field)"
      using alive_invD [OF ainv i] st True by simp
    then have a: "set_add index (aliveCells field) = aliveCells field"
      by (simp add: set_add_def)
    have "index \<notin> set (deadCellsWithAliveNeighbours field)"
      using frontier_invD [OF finv i] st True by simp
    then have d: "set_delete index (deadCellsWithAliveNeighbours field) =
        deadCellsWithAliveNeighbours field"
      by (simp add: set_delete_def)
    have sub: "set (filter (\<lambda>n. \<not> set_has (aliveCells field) n) ?ns)
        \<subseteq> set (deadCellsWithAliveNeighbours field)"
    proof
      fix n
      assume "n \<in> set (filter (\<lambda>n. \<not> set_has (aliveCells field) n) ?ns)"
      then have n: "n \<in> set ?ns" and na: "n \<notin> set (aliveCells field)"
        by (simp_all add: set_has_def)
      have r: "0 \<le> n" "n < int (length (status field))"
        using grid_nbr_range [OF g i n] by simp_all
      have dead: "\<not> status_at (status field) n"
        using alive_invD [OF ainv r] na by simp
      have "index \<in> set (getNeighbours n height width)"
        by (rule grid_nbr_sym [OF g i n])
      then have "has_alive_neighbour field n"
        using valid_alive_neighbour_iff [OF g ainv r] ia by blast
      then show "n \<in> set (deadCellsWithAliveNeighbours field)"
        using frontier_invD [OF finv r] dead by simp
    qed
    have wr': "array_write (status field) index True = status field"
      using wr True by simp
    show ?thesis
      using True
      by (simp add: setStatusAction_def Let_def lk wr' a d foldl_set_add_id [OF sub])
  next
    case False
    have ia: "index \<notin> set (aliveCells field)"
      using alive_invD [OF ainv i] st False by simp
    then have a: "set_delete index (aliveCells field) = aliveCells field"
      by (simp add: set_delete_def)
    have d: "(if list_ex (\<lambda>n. set_has (aliveCells field) n) ?ns
              then set_add index (deadCellsWithAliveNeighbours field)
              else deadCellsWithAliveNeighbours field) = deadCellsWithAliveNeighbours field"
    proof (cases "list_ex (\<lambda>n. set_has (aliveCells field) n) ?ns")
      case True
      then have "has_alive_neighbour field index"
        using valid_alive_neighbour_iff [OF g ainv i] by (simp add: list_ex_iff set_has_def)
      then have "index \<in> set (deadCellsWithAliveNeighbours field)"
        using frontier_invD [OF finv i] st False by simp
      then show ?thesis by (simp add: set_add_def)
    next
      case False
      then show ?thesis by simp
    qed
    have keys: "\<not> list_ex (\<lambda>n. map_of (neighbours field) n = None) ?ns"
    proof -
      have "map_of (neighbours field) n \<noteq> None" if "n \<in> set ?ns" for n
        using grid_lookup [OF g, of n] grid_nbr_range [OF g i that] by simp
      then show ?thesis by (simp add: list_ex_iff)
    qed
    have disj: "set (filter (\<lambda>n. \<not> list_ex (\<lambda>m. set_has (aliveCells field) m)
                       (nbrs_of (neighbours field) n)) ?ns)
        \<inter> set (deadCellsWithAliveNeighbours field) = {}"
    proof -
      have "n \<notin> set (deadCellsWithAliveNeighbours field)"
        if n: "n \<in> set ?ns"
          and none: "\<not> list_ex (\<lambda>m. set_has (aliveCells field) m) (nbrs_of (neighbours field) n)"
        for n
      proof -
        have r: "0 \<le> n" "n < int (length (status field))"
          using grid_nbr_range [OF g i n] by simp_all
        have "\<not> has_alive_neighbour field n"
          using none valid_alive_neighbour_iff [OF g ainv r] grid_nbrs_of [OF g r]
          by (simp add: list_ex_iff set_has_def)
        then show ?thesis using frontier_invD [OF finv r] by simp
      qed
      then show ?thesis by auto
    qed
    have wr': "array_write (status field) index False = status field"
      using wr False by simp
    show ?thesis
      using False
      by (simp add: setStatusAction_def Let_def lk wr' a d keys foldl_set_delete_id [OF disj])
  qed
qed


text \<open>
  The two concrete fields are what the reducer produces from the empty field, and they are
  valid.
\<close>

lemma centre_field_reached:
  "scan_events emptyField [Initialize 3 3, SetCell 4 True] = Inr centre_field"
  by code_simp

lemma centre_field_valid: "valid_field 3 3 centre_field"
  by code_simp

lemma corner_field_reached:
  "scan_events emptyField [Initialize 4 4, SetCell 1 True, SetCell 4 True, SetCell 5 True] =
     Inr corner_field"
  by code_simp

lemma corner_field_valid: "valid_field 4 4 corner_field"
  by code_simp

theorem setStatusAction_current_value_witness:
  "valid_field 3 3 centre_field \<and>
   setStatusAction (4, True) centre_field = Inr centre_field \<and>
   setStatusAction (0, False) centre_field = Inr centre_field"
proof -
  have v: "valid_field 3 3 centre_field" by code_simp
  have s: "status centre_field ! nat 4 = True" "status centre_field ! nat 0 = False"
    by (simp_all add: centre_field_def)
  have r: "(0::int) \<le> 4" "4 < int (length (status centre_field))"
     "(0::int) \<le> 0" "0 < int (length (status centre_field))"
    by (simp_all add: centre_field_def)
  from setStatusAction_current_value [OF v r(1,2)] setStatusAction_current_value [OF v r(3,4)]
  show ?thesis using v s by simp
qed

text \<open>
  The edit handler keeps a valid field valid, whatever the cell and the value: the status
  write and the repair of the two sets agree.
\<close>

lemma setStatusAction_valid:
  assumes v: "valid_field h w f" and s: "setStatusAction (i, b) f = Inr f'"
  shows "valid_field h w f'"
proof -
  let ?ns = "getNeighbours i h w"
  have g: "toroidal_field h w f" and ainv: "alive_inv f" and finv: "frontier_inv f"
    using v by (simp_all add: valid_field_def)
  have some: "map_of (neighbours f) i \<noteq> None"
    using s by (auto simp: setStatusAction_def Let_def split: option.splits)
  have "0 \<le> i \<and> i < int (length (status f))"
  proof (rule ccontr)
    assume "\<not> (0 \<le> i \<and> i < int (length (status f)))"
    from grid_lookup_None [OF g this] some show False by simp
  qed
  then have i: "0 \<le> i" "i < int (length (status f))" by simp_all
  have lk: "map_of (neighbours f) i = Some ?ns" by (rule grid_lookup [OF g i])
  have wr: "array_write (status f) i c = (status f)[nat i := c]" for c
    using i by (simp add: array_write_def)
  have st': "status f' = (status f)[nat i := b]" and nb': "neighbours f' = neighbours f"
    using s by (auto simp: setStatusAction_def Let_def lk wr split: if_splits)
  have len: "length (status f') = length (status f)" by (simp add: st')
  have g': "toroidal_field h w f'" by (rule toroidal_field_cong [OF g len nb'])
  have sat: "status_at (status f') j = (if j = i then b else status_at (status f) j)" for j
    unfolding st' by (rule status_at_update [OF i])
  have old_a: "j \<in> set (aliveCells f) \<longleftrightarrow> status_at (status f) j"
    if "0 \<le> j" "j < int (length (status f))" for j
    by (rule alive_invD [OF ainv that])
  have old_d: "j \<in> set (deadCellsWithAliveNeighbours f) \<longleftrightarrow>
      \<not> status_at (status f) j \<and> (\<exists>n \<in> set (getNeighbours j h w). n \<in> set (aliveCells f))"
    if "0 \<le> j" "j < int (length (status f))" for j
    using frontier_invD [OF finv that] valid_alive_neighbour_iff [OF g ainv that] by simp
  have sym: "j \<in> set ?ns \<longleftrightarrow> i \<in> set (getNeighbours j h w)"
    if "0 \<le> j" "j < int (length (status f))" for j
    by (rule grid_nbr_sym_iff [OF g i that])
  show ?thesis
  proof (cases b)
    case True
    have al: "set (aliveCells f') = insert i (set (aliveCells f))"
      and de: "set (deadCellsWithAliveNeighbours f') =
          (set (deadCellsWithAliveNeighbours f) - {i}) \<union>
          {n \<in> set ?ns. n \<notin> insert i (set (aliveCells f))}"
      using s True
      by (auto simp: setStatusAction_def Let_def lk set_foldl_set_add set_set_add
          set_set_delete set_has_def)
    have ainv': "alive_inv f'"
    proof (rule alive_invI)
      fix j assume "0 \<le> j" "j < int (length (status f'))"
      then show "j \<in> set (aliveCells f') \<longleftrightarrow> status_at (status f') j"
        using old_a [of j] True by (auto simp: al sat len)
    qed
    have finv': "frontier_inv f'"
    proof (rule frontier_invI)
      fix j assume j': "0 \<le> j" "j < int (length (status f'))"
      then have j: "0 \<le> j" "j < int (length (status f))" by (simp_all add: len)
      have "has_alive_neighbour f' j \<longleftrightarrow>
          (\<exists>n \<in> set (getNeighbours j h w). n \<in> set (aliveCells f'))"
        by (rule valid_alive_neighbour_iff [OF g' ainv' j'])
      then show "j \<in> set (deadCellsWithAliveNeighbours f') \<longleftrightarrow>
          (\<not> status_at (status f') j \<and> has_alive_neighbour f' j)"
        using old_a [OF j] old_d [OF j] sym [OF j] True
        by (auto simp: al de sat)
    qed
    show ?thesis using g' ainv' finv' by (simp add: valid_field_def)
  next
    case False
    have keys: "\<not> list_ex (\<lambda>n. map_of (neighbours f) n = None) ?ns"
      using s False by (auto simp: setStatusAction_def Let_def lk split: if_splits)
    have f': "f' = f\<lparr>status := array_write (status f) i False,
          aliveCells := set_delete i (aliveCells f),
          deadCellsWithAliveNeighbours :=
            foldl (\<lambda>d n. set_delete n d)
              (if list_ex (\<lambda>n. set_has (set_delete i (aliveCells f)) n) ?ns
               then set_add i (deadCellsWithAliveNeighbours f)
               else deadCellsWithAliveNeighbours f)
              (filter (\<lambda>n. \<not> list_ex (\<lambda>m. set_has (set_delete i (aliveCells f)) m)
                                (nbrs_of (neighbours f) n)) ?ns)\<rparr>"
      using s False keys by (simp add: setStatusAction_def Let_def lk)
    have al: "set (aliveCells f') = set (aliveCells f) - {i}"
      by (simp add: f' set_set_delete)
    have de: "set (deadCellsWithAliveNeighbours f') =
          (if \<exists>n \<in> set ?ns. n \<in> set (aliveCells f')
           then insert i (set (deadCellsWithAliveNeighbours f))
           else set (deadCellsWithAliveNeighbours f)) -
          {n \<in> set ?ns. \<not> (\<exists>m \<in> set (nbrs_of (neighbours f) n). m \<in> set (aliveCells f'))}"
      unfolding al
      by (auto simp: f' set_foldl_set_delete set_set_add set_set_delete set_has_def list_ex_iff)
    have ainv': "alive_inv f'"
    proof (rule alive_invI)
      fix j assume "0 \<le> j" "j < int (length (status f'))"
      then show "j \<in> set (aliveCells f') \<longleftrightarrow> status_at (status f') j"
        using old_a [of j] False by (auto simp: al sat len)
    qed
    have finv': "frontier_inv f'"
    proof (rule frontier_invI)
      fix j assume j': "0 \<le> j" "j < int (length (status f'))"
      then have j: "0 \<le> j" "j < int (length (status f))" by (simp_all add: len)
      have h: "has_alive_neighbour f' j \<longleftrightarrow>
          (\<exists>n \<in> set (getNeighbours j h w). n \<in> set (aliveCells f'))"
        by (rule valid_alive_neighbour_iff [OF g' ainv' j'])
      have nj: "nbrs_of (neighbours f) j = getNeighbours j h w"
        by (rule grid_nbrs_of [OF g j])
      have hi: "has_alive_neighbour f' i \<longleftrightarrow>
          (\<exists>n \<in> set ?ns. n \<in> set (aliveCells f'))"
        using valid_alive_neighbour_iff [OF g' ainv', of i] i len by simp
      show "j \<in> set (deadCellsWithAliveNeighbours f') \<longleftrightarrow>
          (\<not> status_at (status f') j \<and> has_alive_neighbour f' j)"
      proof (cases "j = i")
        case True
        then show ?thesis
          using old_a [OF i] old_d [OF i] False h nj
          by (auto simp: al de sat)
      next
        case ne: False
        then show ?thesis
          using old_a [OF j] old_d [OF j] sym [OF j] False h nj
          by (auto simp: al de sat)
      qed
    qed
    show ?thesis using g' ainv' finv' by (simp add: valid_field_def)
  qed
qed

section \<open>The event pipeline\<close>

text \<open>
  In every field the reducer produces from the empty field, the keys of the neighbour map
  are exactly the indices of the status array, in order.
\<close>

lemma reducer_keys:
  assumes "map fst (neighbours field) = cell_indices field" "reducer field e = Inr field'"
  shows "map fst (neighbours field') = cell_indices field'"
proof (cases e)
  case (Initialize height width)
  then show ?thesis
    using assms(2)
    by (auto simp: initField_def initAction_def cell_indices_def Let_def comp_def
        split: if_splits)
next
  case (SetCell index st)
  then obtain ns where lk: "map_of (neighbours field) index = Some ns"
    using assms(2) by (auto simp: setStatusAction_def Let_def split: option.splits)
  then have "index \<in> set (map fst (neighbours field))"
    by (metis map_of_eq_None_iff option.distinct(1) set_map)
  then have "0 \<le> index \<and> index < int (length (status field))"
    unfolding assms(1) cell_indices_def by auto
  then have "length (array_write (status field) index st) = length (status field)"
    by (simp add: array_write_def)
  then show ?thesis
    using assms SetCell lk
    by (auto simp: setStatusAction_def cell_indices_def Let_def split: if_splits)
next
  case Tick
  then show ?thesis
    using assms
    by (auto simp: tickAction_def tick_def cell_indices_def Let_def
        split: sum.splits prod.splits if_splits)
qed

lemma scan_keys_from:
  "map fst (neighbours field) = cell_indices field \<Longrightarrow> scan_events field es = Inr field' \<Longrightarrow>
     map fst (neighbours field') = cell_indices field'"
proof (induction es arbitrary: field)
  case Nil
  then show ?case by simp
next
  case (Cons e es)
  then show ?case
    by (auto split: sum.splits dest: reducer_keys)
qed

lemma scan_keys:
  "scan_events emptyField es = Inr field \<Longrightarrow> map fst (neighbours field) = cell_indices field"
  by (rule scan_keys_from [of emptyField]) (simp_all add: emptyField_def cell_indices_def)

text \<open>
  C10. A \<open>Tick\<close> event and a \<open>SetCell\<close> event leave the neighbour map of the field as it
  is; an \<open>Initialize\<close> event replaces it with the map of the new dimensions.
\<close>

theorem reducer_neighbours:
  assumes "reducer field e = Inr field'"
  shows "case e of
           Initialize height width \<Rightarrow>
             neighbours field' =
               map (\<lambda>k. (int k, getNeighbours (int k) height width)) [0..<nat (height * width)]
         | SetCell index st \<Rightarrow> neighbours field' = neighbours field
         | Tick \<Rightarrow> neighbours field' = neighbours field"
proof (cases e)
  case (Initialize height width)
  then show ?thesis
    using assms by (auto simp: initField_def initAction_def Let_def split: if_splits)
next
  case (SetCell index st)
  then show ?thesis
    using assms
    by (auto simp: setStatusAction_def Let_def split: option.splits if_splits)
next
  case Tick
  then show ?thesis
    using assms by (auto simp: tickAction_def split: sum.splits prod.splits)
qed

theorem reducer_neighbours_witness:
  "map_sum id neighbours (reducer centre_field Tick) = Inr (neighbours centre_field) \<and>
   map_sum id neighbours (reducer centre_field (SetCell 0 True)) = Inr (neighbours centre_field) \<and>
   map_sum id neighbours (reducer centre_field (Initialize 1 2)) =
     Inr [(0, [1, 0, 1, 1, 1, 1, 0, 1]), (1, [0, 1, 0, 0, 0, 0, 1, 0])]"
proof -
  have t: "reducer centre_field Tick =
      Inr (centre_field\<lparr>status := replicate 9 False, aliveCells := [],
             deadCellsWithAliveNeighbours := []\<rparr>)"
    by code_simp
  have s: "reducer centre_field (SetCell 0 True) =
      Inr (centre_field\<lparr>status := [True, False, False, False, True, False, False, False, False],
             aliveCells := [4, 0], deadCellsWithAliveNeighbours := [1, 2, 3, 5, 6, 7, 8]\<rparr>)"
    by code_simp
  have i: "reducer centre_field (Initialize 1 2) =
      Inr (centre_field\<lparr>status := [False, False],
             neighbours := [(0, [1, 0, 1, 1, 1, 1, 0, 1]), (1, [0, 1, 0, 0, 0, 0, 1, 0])]\<rparr>)"
    by code_simp
  from reducer_neighbours [OF t] reducer_neighbours [OF s] reducer_neighbours [OF i]
  show ?thesis unfolding t s i by simp
qed

text \<open>
  C4, as the code has it. On the empty field (empty status array, empty sets, empty
  neighbour map) a \<open>Tick\<close> event does not fail and leaves the field unchanged. A \<open>SetCell\<close>
  event does fail there, whatever its index and value: the lookup of the neighbours of the
  cell gives \<open>undefined\<close>, and the method call on it throws a TypeError.
\<close>

theorem empty_field_tick_and_set:
  "tickAction emptyField = Inr emptyField \<and>
   setStatusAction (index, st) emptyField = Inl TypeError"
  by (simp add: tickAction_def tick_def setStatusAction_def emptyField_def new_Set_def Let_def)

text \<open>
  C4, as the specification states it, fails for \<open>SetCell\<close>: setting cell 0 alive on the
  empty field is not a no-op but a TypeError.
\<close>

theorem set_on_empty_field_fails:
  "setStatusAction (0, True) emptyField = Inl TypeError \<and>
   setStatusAction (0, True) emptyField \<noteq> Inr emptyField"
  by (simp add: setStatusAction_def emptyField_def)

section \<open>The generation step\<close>

text \<open>
  What a successful tick returns, component by component, and which cells are in the new
  \<open>aliveCells\<close>: the candidates other than 0 that the rule keeps or brings alive.
\<close>

lemma decideStatus_b3s23:
  "decideStatus f st i =
     b3s23 st (length (filter (\<lambda>n. status_at (status f) n) (nbrs_of (neighbours f) i)))"
  by (auto simp: decideStatus_def b3s23_def Let_def)

lemma tickAction_Inr:
  assumes "tickAction f = Inr f'"
  shows "aliveCells f' = new_Set (map the (filter truthy
            (map (\<lambda>index. if decideStatus f (status_at (status f) index) index
                           then Some index else None)
               (aliveCells f @ deadCellsWithAliveNeighbours f))))"
    and "status f' = map (\<lambda>index. set_has (aliveCells f') (int index)) [0..<length (status f)]"
    and "deadCellsWithAliveNeighbours f' =
           new_Set (filter (\<lambda>neighbour. \<not> set_has (aliveCells f') neighbour)
             (concat (map (\<lambda>index. nbrs_of (neighbours f) index) (aliveCells f'))))"
    and "neighbours f' = neighbours f"
    and "\<forall>i \<in> set (aliveCells f @ deadCellsWithAliveNeighbours f). map_of (neighbours f) i \<noteq> None"
  using assms
  by (auto simp: tickAction_def tick_def Let_def list_ex_iff split: sum.splits prod.splits if_splits)

lemma tick_alive_iff:
  assumes "tickAction f = Inr f'"
  shows "i \<in> set (aliveCells f') \<longleftrightarrow>
     i \<noteq> 0 \<and> (i \<in> set (aliveCells f) \<or> i \<in> set (deadCellsWithAliveNeighbours f)) \<and>
     decideStatus f (status_at (status f) i) i"
  unfolding tickAction_Inr(1) [OF assms] set_new_Set
  by (auto simp: truthy_def image_iff split: if_splits)

text \<open>
  On a valid field the status after a successful tick is the naive evaluation of the rule
  over every cell, with cell 0 forced dead: cells outside both sets are dead without an
  alive neighbour and stay dead, and on the candidates \<open>decideStatus\<close> is the rule.
\<close>

lemma tick_status_naive:
  assumes v: "valid_field h w f" and t: "tickAction f = Inr f'"
  shows "status f' = (naive_step f)[0 := False]"
proof (rule nth_equalityI)
  show "length (status f') = length ((naive_step f)[0 := False])"
    by (simp add: tickAction_Inr(2) [OF t] naive_step_def)
next
  fix k
  assume "k < length (status f')"
  then have k: "k < length (status f)" by (simp add: tickAction_Inr(2) [OF t])
  have r: "0 \<le> int k" "int k < int (length (status f))" using k by simp_all
  have ainv: "alive_inv f" and finv: "frontier_inv f"
    using v by (simp_all add: valid_field_def)
  have st: "status_at (status f) (int k) = status f ! k" using k by (simp add: status_at_def)
  have lhs: "status f' ! k = (int k \<in> set (aliveCells f'))"
    using k by (simp add: tickAction_Inr(2) [OF t] set_has_def)
  show "status f' ! k = (naive_step f)[0 := False] ! k"
  proof (cases "k = 0")
    case True
    then show ?thesis using k lhs tick_alive_iff [OF t, of 0] by (simp add: naive_step_def)
  next
    case False
    have nv: "naive_step f ! k = decideStatus f (status f ! k) (int k)"
      using k by (simp add: naive_step_def decideStatus_b3s23)
    show ?thesis
    proof (cases "int k \<in> set (aliveCells f) \<or> int k \<in> set (deadCellsWithAliveNeighbours f)")
      case True
      then show ?thesis using False k lhs nv st tick_alive_iff [OF t, of "int k"] by simp
    next
      case out: False
      then have dead: "\<not> status f ! k" using alive_invD [OF ainv r] st by simp
      have "\<not> has_alive_neighbour f (int k)"
        using out frontier_invD [OF finv r] dead st by simp
      then have "filter (\<lambda>n. status_at (status f) n) (nbrs_of (neighbours f) (int k)) = []"
        by (simp add: has_alive_neighbour_def list_ex_iff filter_empty_conv)
      then have "\<not> decideStatus f (status f ! k) (int k)"
        using dead by (simp add: decideStatus_def)
      then show ?thesis using False k lhs nv out tick_alive_iff [OF t, of "int k"] by simp
    qed
  qed
qed

text \<open>
  A tick on a field with the neighbour map of its grid returns a valid field: the new sets
  and the new status are computed together, so both invariants hold afterwards even if
  they did not before.
\<close>

lemma tick_alive_in_range:
  assumes g: "toroidal_field h w f" and t: "tickAction f = Inr f'"
    and a: "a \<in> set (aliveCells f')"
  shows "0 \<le> a \<and> a < int (length (status f))"
proof (rule ccontr)
  assume "\<not> (0 \<le> a \<and> a < int (length (status f)))"
  then have "map_of (neighbours f) a = None" by (rule grid_lookup_None [OF g])
  moreover have "a \<in> set (aliveCells f @ deadCellsWithAliveNeighbours f)"
    using tick_alive_iff [OF t, of a] a by simp
  ultimately show False using tickAction_Inr(5) [OF t] by blast
qed

lemma tick_valid:
  assumes g: "toroidal_field h w f" and t: "tickAction f = Inr f'"
  shows "valid_field h w f'"
proof -
  have len: "length (status f') = length (status f)"
    by (simp add: tickAction_Inr(2) [OF t])
  have g': "toroidal_field h w f'"
    by (rule toroidal_field_cong [OF g len tickAction_Inr(4) [OF t]])
  have st: "status_at (status f') i \<longleftrightarrow> i \<in> set (aliveCells f')"
    if "0 \<le> i" "i < int (length (status f'))" for i
  proof -
    have "nat i < length (status f)" using that len by simp
    then show ?thesis
      using that by (simp add: status_at_def tickAction_Inr(2) [OF t] set_has_def)
  qed
  have ainv: "alive_inv f'"
    by (rule alive_invI) (simp add: st)
  have finv: "frontier_inv f'"
  proof (rule frontier_invI)
    fix i
    assume i: "0 \<le> i" "i < int (length (status f'))"
    have i0: "i < int (length (status f))" using i len by simp
    have "i \<in> set (deadCellsWithAliveNeighbours f') \<longleftrightarrow>
        i \<notin> set (aliveCells f') \<and> (\<exists>a \<in> set (aliveCells f'). i \<in> set (nbrs_of (neighbours f) a))"
      by (auto simp: tickAction_Inr(3) [OF t] set_new_Set set_has_def)
    also have "(\<exists>a \<in> set (aliveCells f'). i \<in> set (nbrs_of (neighbours f) a)) \<longleftrightarrow>
        (\<exists>a \<in> set (getNeighbours i h w). a \<in> set (aliveCells f'))"
    proof
      assume "\<exists>a \<in> set (aliveCells f'). i \<in> set (nbrs_of (neighbours f) a)"
      then obtain a where a: "a \<in> set (aliveCells f')" "i \<in> set (nbrs_of (neighbours f) a)"
        by blast
      have r: "0 \<le> a" "a < int (length (status f))"
        using tick_alive_in_range [OF g t a(1)] by simp_all
      have "i \<in> set (getNeighbours a h w)" using a(2) grid_nbrs_of [OF g r] by simp
      from grid_nbr_sym [OF g r this] a(1)
      show "\<exists>a \<in> set (getNeighbours i h w). a \<in> set (aliveCells f')" by blast
    next
      assume "\<exists>a \<in> set (getNeighbours i h w). a \<in> set (aliveCells f')"
      then obtain a where a: "a \<in> set (getNeighbours i h w)" "a \<in> set (aliveCells f')"
        by blast
      have r: "0 \<le> a" "a < int (length (status f))"
        using grid_nbr_range [OF g i(1) i0 a(1)] by simp_all
      have "i \<in> set (nbrs_of (neighbours f) a)"
        using grid_nbr_sym [OF g i(1) i0 a(1)] grid_nbrs_of [OF g r] by simp
      with a(2) show "\<exists>a \<in> set (aliveCells f'). i \<in> set (nbrs_of (neighbours f) a)" by blast
    qed
    also have "\<dots> \<longleftrightarrow> has_alive_neighbour f' i"
      using valid_alive_neighbour_iff [OF g' ainv i] by simp
    finally show "i \<in> set (deadCellsWithAliveNeighbours f') \<longleftrightarrow>
        (\<not> status_at (status f') i \<and> has_alive_neighbour f' i)"
      using st [OF i] by simp
  qed
  show ?thesis using g' ainv finv by (simp add: valid_field_def)
qed

text \<open>
  C5. In the field that the tick action returns, cell 0 is dead: 0 is not in the new
  \<open>aliveCells\<close> and the new \<open>status[0]\<close> is not true (it is \<open>false\<close> whenever the status
  array has an entry 0), whatever the rule says about cell 0, since the filter
  \<open>!!index\<close> drops the index 0 together with the \<open>null\<close>s.
\<close>

theorem tickAction_cell_zero_dead:
  assumes "tickAction field = Inr field'"
  shows "\<not> set_has (aliveCells field') 0 \<and> \<not> status_at (status field') 0 \<and>
         (status field' \<noteq> [] \<longrightarrow> status field' ! 0 = False)"
proof -
  let ?marked = "map (\<lambda>index. if decideStatus field (status_at (status field) index) index
                                then Some index else None)
                   (aliveCells field @ deadCellsWithAliveNeighbours field)"
  let ?alive = "new_Set (map the (filter truthy ?marked))"
  have "0 \<notin> set (map the (filter truthy ?marked))"
    by (auto simp: truthy_def split: if_splits)
  then have z: "\<not> set_has ?alive 0"
    by (simp only: set_has_def set_new_Set not_False_eq_True)
  have a: "aliveCells field' = ?alive"
    and s: "status field' = map (\<lambda>index. set_has ?alive (int index)) [0..<length (status field)]"
    using assms
    by (auto simp: tickAction_def tick_def Let_def split: sum.splits prod.splits if_splits)
  have s0: "status field' \<noteq> [] \<Longrightarrow> status field' ! 0 = False"
    using z by (simp add: s upt_conv_Cons)
  then have "\<not> status_at (status field') 0"
    by (auto simp: status_at_def)
  with z s0 show ?thesis by (simp add: a)
qed

theorem tickAction_cell_zero_dead_witness:
  "decideStatus corner_field (status_at (status corner_field) 0) 0 \<and>
   set_has (deadCellsWithAliveNeighbours corner_field) 0 \<and>
   map_sum id (\<lambda>f. (set_has (aliveCells f) 0, status_at (status f) 0, status f ! 0))
     (tickAction corner_field) = Inr (False, False, False)"
proof -
  have t: "tickAction corner_field = Inr corner_field"
    by code_simp
  have c: "decideStatus corner_field (status_at (status corner_field) 0) 0"
     "set_has (deadCellsWithAliveNeighbours corner_field) 0"
     "status corner_field \<noteq> []"
    by code_simp+
  from tickAction_cell_zero_dead [OF t] c show ?thesis unfolding t by simp
qed

text \<open>
  C1 at the field \<open>corner_field\<close>, which is valid and which the reducer produces: cell 0
  is dead with the three alive neighbours 1, 4 and 5, so the rule B3/S23 makes it alive,
  and the naive evaluation says so; the status that \<open>tickAction\<close> returns has cell 0 dead.
\<close>

theorem tick_misses_birth_of_cell_zero:
  "map_sum id status (tickAction corner_field) =
     Inr [False, True, False, False, True, True, False, False,
          False, False, False, False, False, False, False, False] \<and>
   naive_step corner_field =
     [True, True, False, False, True, True, False, False,
      False, False, False, False, False, False, False, False]"
  by code_simp

section \<open>Initialisation\<close>

text \<open>
  What an \<open>Initialize\<close> event does to a field: it installs an all-dead status array of
  \<open>height * width\<close> cells and the neighbour map of these dimensions, and it hands the two
  sets on as they are.
\<close>

lemma reducer_Initialize:
  assumes "reducer field (Initialize height width) = Inr field'"
  shows "status field' = replicate (nat (height * width)) False"
    and "neighbours field' =
           map (\<lambda>k. (int k, getNeighbours (int k) height width)) [0..<nat (height * width)]"
    and "aliveCells field' = aliveCells field"
    and "deadCellsWithAliveNeighbours field' = deadCellsWithAliveNeighbours field"
  using assms
  by (auto simp: initField_def initAction_def Let_def split: if_splits)

text \<open>
  C3 at the field \<open>centre_field\<close>: an \<open>Initialize 2 2\<close> event resets the status array to
  four dead cells, but the field it returns still has cell 4 in \<open>aliveCells\<close> and the old
  eight cells in \<open>deadCellsWithAliveNeighbours\<close>, since the init payload carries only
  \<open>status\<close> and \<open>neighbours\<close>.
\<close>

theorem initialize_keeps_sets:
  "map_sum id (\<lambda>f. (status f, aliveCells f, deadCellsWithAliveNeighbours f))
     (reducer centre_field (Initialize 2 2)) =
   Inr ([False, False, False, False], [4], [0, 1, 2, 3, 5, 6, 7, 8])"
  by code_simp

text \<open>The next tick then looks up cell 4 in the neighbour map of the 2 by 2 grid and throws.\<close>

lemma tick_after_shrinking_fails:
  "scan_events emptyField [Initialize 3 3, SetCell 4 True, Initialize 2 2, Tick] = Inl TypeError"
  by code_simp

text \<open>
  C2 after the events \<open>Initialize 3 3\<close>, \<open>SetCell 4 True\<close>, \<open>Initialize 4 4\<close>: cell 4 is in
  \<open>aliveCells\<close> while \<open>status[4]\<close> is false, and cell 0 is in
  \<open>deadCellsWithAliveNeighbours\<close> while none of its neighbours is alive.
\<close>

theorem initialize_breaks_invariants:
  "map_sum id (\<lambda>f. (set_has (aliveCells f) 4, status_at (status f) 4,
                     set_has (deadCellsWithAliveNeighbours f) 0, has_alive_neighbour f 0))
     (scan_events emptyField [Initialize 3 3, SetCell 4 True, Initialize 4 4]) =
   Inr (True, False, True, False)"
  by code_simp

text \<open>
  Where the sets are empty when the \<open>Initialize\<close> event arrives, as they are in the empty
  field, the field it returns is valid, and it stays valid through every sequence of
  \<open>SetCell\<close> and \<open>Tick\<close> events that the reducer processes without an error.
\<close>

lemma initialize_valid:
  assumes "1 \<le> h" "1 \<le> w" "aliveCells f = []" "deadCellsWithAliveNeighbours f = []"
    and r: "reducer f (Initialize h w) = Inr f'"
  shows "valid_field h w f'"
proof -
  obtain st nb where p: "initField h w = Inr (st, nb)" and f': "f' = initAction (st, nb) f"
    using r by (auto split: sum.splits)
  have st: "st = replicate (nat (h * w)) False" using initField_Inr [OF p] by simp
  have dead: "\<not> status_at (status f') i" for i
    by (simp add: f' initAction_def st status_at_def)
  have "toroidal_field h w f'"
    using assms(1,2) p by (simp add: toroidal_field_def f' initAction_def st)
  moreover have "alive_inv f'"
    using assms(3) dead by (simp add: alive_inv_def set_has_def f' initAction_def)
  moreover have "frontier_inv f'"
    using assms(4) dead
    by (simp add: frontier_inv_def set_has_def has_alive_neighbour_def list_ex_iff f' initAction_def)
  ultimately show ?thesis by (simp add: valid_field_def)
qed

lemma reducer_valid:
  assumes "valid_field h w f" "\<not> is_Initialize e" "reducer f e = Inr f'"
  shows "valid_field h w f'"
proof (cases e)
  case (Initialize height width)
  then show ?thesis using assms(2) by simp
next
  case (SetCell index st)
  then have "setStatusAction (index, st) f = Inr f'" using assms(3) by simp
  with assms(1) show ?thesis by (rule setStatusAction_valid)
next
  case Tick
  have "toroidal_field h w f" using assms(1) by (simp add: valid_field_def)
  moreover have "tickAction f = Inr f'" using assms(3) Tick by simp
  ultimately show ?thesis by (rule tick_valid)
qed

lemma scan_events_valid:
  "valid_field h w f \<Longrightarrow> \<not> list_ex is_Initialize es \<Longrightarrow> scan_events f es = Inr f' \<Longrightarrow>
     valid_field h w f'"
proof (induction es arbitrary: f)
  case Nil
  then show ?case by simp
next
  case (Cons e es)
  from Cons.prems(3) obtain f1 where f1: "reducer f e = Inr f1" "scan_events f1 es = Inr f'"
    by (auto split: sum.splits)
  have "valid_field h w f1"
    using reducer_valid [OF Cons.prems(1) _ f1(1)] Cons.prems(2) by simp
  then show ?case using Cons.IH [OF _ _ f1(2)] Cons.prems(2) by simp
qed

lemma scan_events_after_first_Initialize:
  assumes "1 \<le> h" "1 \<le> w" "\<not> list_ex is_Initialize es"
    and "scan_events emptyField (Initialize h w # es) = Inr f'"
  shows "valid_field h w f'"
proof -
  from assms(4) obtain f1 where f1: "reducer emptyField (Initialize h w) = Inr f1"
      "scan_events f1 es = Inr f'"
    by (auto split: sum.splits)
  have "valid_field h w f1"
    by (rule initialize_valid [OF assms(1,2) _ _ f1(1)]) (simp_all add: emptyField_def)
  then show ?thesis by (rule scan_events_valid [OF _ assms(3) f1(2)])
qed

section \<open>The glider\<close>

text \<open>
  C9. On the 5 by 5 torus with exactly the cells (1,2), (2,3), (3,1), (3,2), (3,3) alive,
  one \<open>Tick\<close> gives the alive cells (2,1), (2,3), (3,2), (3,3), (4,2), the glider one
  generation on, and four \<open>Tick\<close>s give the original five cells each moved by (1,1)
  modulo 5; the status array is true at exactly these cells both times.
\<close>

theorem glider_on_torus:
  "map_sum id (\<lambda>f. (sort (aliveCells f), status f))
     (scan_events emptyField (glider_events @ [Tick])) =
   Inr (map (\<lambda>(r, c). cell 5 r c) [(2, 1), (2, 3), (3, 2), (3, 3), (4, 2)],
        map (\<lambda>k. int k \<in> set (map (\<lambda>(r, c). cell 5 r c) [(2, 1), (2, 3), (3, 2), (3, 3), (4, 2)]))
          [0..<25]) \<and>
   map_sum id (\<lambda>f. (sort (aliveCells f), status f))
     (scan_events emptyField (glider_events @ [Tick, Tick, Tick, Tick])) =
   Inr (map (\<lambda>(r, c). cell 5 ((r + 1) mod 5) ((c + 1) mod 5))
          [(1, 2), (2, 3), (3, 1), (3, 2), (3, 3)],
        map (\<lambda>k. int k \<in> set (map (\<lambda>(r, c). cell 5 ((r + 1) mod 5) ((c + 1) mod 5))
                                  [(1, 2), (2, 3), (3, 1), (3, 2), (3, 3)]))
          [0..<25])"
  by code_simp

end
